theory Spec2Isabelle
  imports Complex_Main
begin

section \<open>The canvas drawing widget (task11/script.js)\<close>

subsection \<open>Data\<close>

text \<open>
  The only exception the modelled code can meet is the \<open>TypeError\<close> of reading a
  property of \<open>undefined\<close> (an array read out of range gives \<open>undefined\<close>).
\<close>

datatype js_error = TypeError

text \<open>A point object \<open>{x, y}\<close>; coordinates are JavaScript numbers, read as reals.\<close>

record point =
  px :: real
  py :: real

text \<open>
  A stroke object \<open>{color, size, points}\<close>. The field \<open>size\<close> is the result of
  \<open>parseInt(brushSize.value, 10)\<close>, an integer.
\<close>

record stroke =
  color :: string
  size_b :: int
  points :: "point list"

text \<open>
  The 2D context is kept as the style attributes the script assigns and a display list of
  what has been painted since the surface was last cleared: a line segment stroked with
  the styles in force at \<open>ctx.stroke()\<close>, or a full disc (an arc from \<open>0\<close> to \<open>2 * pi\<close>)
  filled with the fill style in force at \<open>ctx.fill()\<close>.
\<close>

datatype shape =
    Segment point point string int string string
  | Dot real real real string

record context2d =
  lineJoin :: string
  lineCap :: string
  strokeStyle :: string
  lineWidth :: int
  fillStyle :: string
  surface :: "shape list"

text \<open>The module-level variables \<open>drawing\<close>, \<open>currentStroke\<close>, \<open>strokes\<close> and the context.\<close>

record state =
  drawing :: bool
  currentStroke :: "stroke option"
  strokes :: "stroke list"
  ctx :: context2d

definition init_ctx :: context2d where
  "init_ctx = \<lparr>lineJoin = ''miter'', lineCap = ''butt'', strokeStyle = ''#000000'',
               lineWidth = 1, fillStyle = ''#000000'', surface = []\<rparr>"

definition init :: state where
  "init = \<lparr>drawing = False, currentStroke = None, strokes = [], ctx = init_ctx\<rparr>"

subsection \<open>Operations\<close>

text \<open>An array read \<open>pts[i]\<close>: \<open>undefined\<close> (here \<open>None\<close>) when out of range.\<close>

definition nth_js :: "'a list \<Rightarrow> nat \<Rightarrow> 'a option" where
  "nth_js xs i = (if i < length xs then Some (xs ! i) else None)"

text \<open>
  \<open>beginStroke(x, y)\<close>. The values of the colour picker and of the brush-size control
  (already parsed) are read from the page; they are the first two arguments here.
\<close>

definition beginStroke :: "string \<Rightarrow> int \<Rightarrow> real \<Rightarrow> real \<Rightarrow> state \<Rightarrow> state" where
  "beginStroke cval sval x y st =
     st\<lparr>drawing := True,
        currentStroke := Some \<lparr>color = cval, size_b = sval, points = [\<lparr>px = x, py = y\<rparr>]\<rparr>\<rparr>"

text \<open>
  \<open>drawSegment(p1, p2, color, size)\<close>: sets the four style attributes, then strokes the
  path from \<open>p1\<close> to \<open>p2\<close>. Reading \<open>p1.x\<close> of an undefined \<open>p1\<close> raises.
\<close>

definition drawSegment ::
    "point option \<Rightarrow> point option \<Rightarrow> string \<Rightarrow> int \<Rightarrow> context2d \<Rightarrow> js_error + context2d" where
  "drawSegment p1 p2 col sz c =
     (let c1 = c\<lparr>lineJoin := ''round'', lineCap := ''round'', strokeStyle := col, lineWidth := sz\<rparr>
      in case p1 of
           None \<Rightarrow> Inl TypeError
         | Some a \<Rightarrow>
            (case p2 of
               None \<Rightarrow> Inl TypeError
             | Some b \<Rightarrow>
                Inr (c1\<lparr>surface := surface c1 @
                       [Segment a b (strokeStyle c1) (lineWidth c1) (lineJoin c1) (lineCap c1)]\<rparr>)))"

text \<open>\<open>drawDot(x, y, color, size)\<close>: a filled disc of radius \<open>size / 2\<close>.\<close>

definition drawDot :: "real \<Rightarrow> real \<Rightarrow> string \<Rightarrow> int \<Rightarrow> context2d \<Rightarrow> context2d" where
  "drawDot x y col sz c =
     (let c1 = c\<lparr>fillStyle := col\<rparr>
      in c1\<lparr>surface := surface c1 @ [Dot x y (real_of_int sz / 2) (fillStyle c1)]\<rparr>)"

text \<open>\<open>addPointToStroke(x, y)\<close>.\<close>

definition addPointToStroke :: "real \<Rightarrow> real \<Rightarrow> state \<Rightarrow> js_error + state" where
  "addPointToStroke x y st =
     (if \<not> drawing st then Inr st
      else case currentStroke st of
        None \<Rightarrow> Inr st
      | Some cur \<Rightarrow>
         (let pts = points cur @ [\<lparr>px = x, py = y\<rparr>];
              cur' = cur\<lparr>points := pts\<rparr>;
              st1 = st\<lparr>currentStroke := Some cur'\<rparr>;
              len = length pts
          in if len \<ge> 2 then
               (case drawSegment (nth_js pts (len - 2)) (nth_js pts (len - 1))
                       (color cur') (size_b cur') (ctx st1) of
                  Inl e \<Rightarrow> Inl e
                | Inr c' \<Rightarrow> Inr (st1\<lparr>ctx := c'\<rparr>))
             else Inr (st1\<lparr>ctx := drawDot x y (color cur') (size_b cur') (ctx st1)\<rparr>)))"

text \<open>\<open>endStroke()\<close>.\<close>

definition endStroke :: "state \<Rightarrow> state" where
  "endStroke st =
     (if \<not> drawing st then st
      else let st1 = st\<lparr>drawing := False\<rparr>
           in case currentStroke st1 of
                None \<Rightarrow> st1
              | Some cur \<Rightarrow>
                 if length (points cur) > 0
                 then st1\<lparr>strokes := strokes st1 @ [cur], currentStroke := None\<rparr>
                 else st1)"

text \<open>
  \<open>ctx.clearRect(0, 0, rect.width, rect.height)\<close> over the canvas's whole box: nothing
  painted before remains.
\<close>

definition clearRect :: "context2d \<Rightarrow> context2d" where
  "clearRect c = c\<lparr>surface := []\<rparr>"

text \<open>The inner loop of \<open>redrawAll\<close>: \<open>for (let i = 1; i < pts.length; i++)\<close>.\<close>

function segLoop :: "nat \<Rightarrow> point list \<Rightarrow> string \<Rightarrow> int \<Rightarrow> context2d \<Rightarrow> js_error + context2d" where
  "segLoop i pts col sz c =
     (if i < length pts then
        (case drawSegment (nth_js pts (i - 1)) (nth_js pts i) col sz c of
           Inl e \<Rightarrow> Inl e
         | Inr c' \<Rightarrow> segLoop (i + 1) pts col sz c')
      else Inr c)"
  by pat_completeness auto
termination
  by (relation "measure (\<lambda>(i, pts, col, sz, c). length pts - i)") auto

declare segLoop.simps [simp del]

text \<open>The body of the outer loop of \<open>redrawAll\<close>, for one stroke.\<close>

definition redrawStroke :: "stroke \<Rightarrow> context2d \<Rightarrow> js_error + context2d" where
  "redrawStroke s c =
     (let pts = points s
      in if length pts = 1 then
           (case nth_js pts 0 of
              None \<Rightarrow> Inl TypeError
            | Some p \<Rightarrow> Inr (drawDot (px p) (py p) (color s) (size_b s) c))
         else segLoop 1 pts (color s) (size_b s) c)"

text \<open>The outer loop: \<open>for (const stroke of strokes)\<close>.\<close>

fun redrawStrokes :: "stroke list \<Rightarrow> context2d \<Rightarrow> js_error + context2d" where
  "redrawStrokes [] c = Inr c"
| "redrawStrokes (s # ss) c =
     (case redrawStroke s c of
        Inl e \<Rightarrow> Inl e
      | Inr c' \<Rightarrow> redrawStrokes ss c')"

definition redrawAll :: "state \<Rightarrow> js_error + state" where
  "redrawAll st =
     (case redrawStrokes (strokes st) (clearRect (ctx st)) of
        Inl e \<Rightarrow> Inl e
      | Inr c' \<Rightarrow> Inr (st\<lparr>ctx := c'\<rparr>))"

text \<open>\<open>undoLast()\<close>: \<open>strokes.pop()\<close> leaves an empty array empty.\<close>

definition undoLast :: "state \<Rightarrow> js_error + state" where
  "undoLast st = redrawAll (st\<lparr>strokes := butlast (strokes st)\<rparr>)"

definition clearCanvas :: "state \<Rightarrow> js_error + state" where
  "clearCanvas st = redrawAll (st\<lparr>strokes := [], currentStroke := None\<rparr>)"

text \<open>
  The event handlers that reach the stroke model: pointer down, pointer move, pointer
  up, the undo button, the (confirmed) clear button, and a resize, which redraws.
\<close>

datatype action =
    Begin string int real real
  | Extend real real
  | End
  | Undo
  | Clear
  | Redraw

fun step :: "action \<Rightarrow> state \<Rightarrow> js_error + state" where
  "step (Begin cval sval x y) st = Inr (beginStroke cval sval x y st)"
| "step (Extend x y) st = addPointToStroke x y st"
| "step End st = Inr (endStroke st)"
| "step Undo st = undoLast st"
| "step Clear st = clearCanvas st"
| "step Redraw st = redrawAll st"

text \<open>Running a list of actions stops at the first exception.\<close>

fun run :: "action list \<Rightarrow> state \<Rightarrow> js_error + state" where
  "run [] st = Inr st"
| "run (a # as) st =
     (case step a st of
        Inl e \<Rightarrow> Inl e
      | Inr st' \<Rightarrow> run as st')"

inductive reachable :: "state \<Rightarrow> bool" where
  reachable_init: "reachable init"
| reachable_step: "reachable st \<Longrightarrow> step a st = Inr st' \<Longrightarrow> reachable st'"

subsection \<open>The renderer as the specification describes it\<close>

text \<open>
  Following the specification's words, not the code: a stroke with exactly one point is
  a dot of diameter \<open>size\<close> centred at the point, filled in \<open>color\<close>; otherwise it is the
  round-capped, round-joined segments of width \<open>size\<close> between consecutive points.
\<close>

definition spec_dot :: "point \<Rightarrow> int \<Rightarrow> string \<Rightarrow> shape" where
  "spec_dot p diameter col = Dot (px p) (py p) (real_of_int diameter / 2) col"

definition spec_draw_stroke :: "stroke \<Rightarrow> shape list" where
  "spec_draw_stroke s =
     (case points s of
        [p] \<Rightarrow> [spec_dot p (size_b s) (color s)]
      | pts \<Rightarrow> map (\<lambda>(a, b). Segment a b (color s) (size_b s) ''round'' ''round'')
                 (zip pts (tl pts)))"

text \<open>
  The surface the specification's \<open>render(drawing, inProgress?)\<close> produces from a
  cleared surface: every committed stroke in order, then the in-progress stroke.
\<close>

definition spec_render :: "stroke list \<Rightarrow> stroke option \<Rightarrow> shape list" where
  "spec_render ss cur =
     concat (map spec_draw_stroke ss) @
     (case cur of None \<Rightarrow> [] | Some s \<Rightarrow> spec_draw_stroke s)"

text \<open>What a call painted, when it returned.\<close>

definition rendered :: "js_error + state \<Rightarrow> shape list option" where
  "rendered r = (case r of Inl e \<Rightarrow> None | Inr st \<Rightarrow> Some (surface (ctx st)))"

text \<open>Every committed stroke has a point; so has the stroke in progress, if there is one.\<close>

definition committed_ok :: "state \<Rightarrow> bool" where
  "committed_ok st \<longleftrightarrow> list_all (\<lambda>s. points s \<noteq> []) (strokes st)"

definition current_ok :: "state \<Rightarrow> bool" where
  "current_ok st \<longleftrightarrow> (case currentStroke st of None \<Rightarrow> True | Some cur \<Rightarrow> points cur \<noteq> [])"

section \<open>The bounce animation (task11/script.js)\<close>

subsection \<open>JavaScript numbers\<close>

text \<open>
  The animation computes with JavaScript numbers, IEEE 754 doubles: a number is
  \<open>NaN\<close>, one of the two infinities, or a finite value. An arithmetic result whose exact
  value has magnitude \<open>2^1024 - 2^970\<close> or more (the largest double plus half a unit in
  its last place) overflows to an infinity; \<open>Infinity * 0\<close> and \<open>Infinity - Infinity\<close>
  are \<open>NaN\<close>; \<open>NaN\<close> propagates through arithmetic and fails every comparison.
  Two things are left out: the rounding of a finite result to the nearest double (a
  relative change of at most \<open>2^-53\<close>), and the sign of zero (the script never divides
  by a variable).
\<close>

datatype jsnum = NaN | PInf | NInf | Fin real

definition overflow_bound :: real where
  "overflow_bound = 2 ^ 1024 - 2 ^ 970"

definition fl :: "real \<Rightarrow> jsnum" where
  "fl r = (if r \<ge> overflow_bound then PInf
           else if r \<le> - overflow_bound then NInf
           else Fin r)"

fun js_neg :: "jsnum \<Rightarrow> jsnum" where
  "js_neg NaN = NaN"
| "js_neg PInf = NInf"
| "js_neg NInf = PInf"
| "js_neg (Fin a) = Fin (- a)"

fun js_add :: "jsnum \<Rightarrow> jsnum \<Rightarrow> jsnum" where
  "js_add NaN b = NaN"
| "js_add PInf NaN = NaN"
| "js_add PInf PInf = PInf"
| "js_add PInf NInf = NaN"
| "js_add PInf (Fin b) = PInf"
| "js_add NInf NaN = NaN"
| "js_add NInf PInf = NaN"
| "js_add NInf NInf = NInf"
| "js_add NInf (Fin b) = NInf"
| "js_add (Fin a) NaN = NaN"
| "js_add (Fin a) PInf = PInf"
| "js_add (Fin a) NInf = NInf"
| "js_add (Fin a) (Fin b) = fl (a + b)"

definition js_sub :: "jsnum \<Rightarrow> jsnum \<Rightarrow> jsnum" where
  "js_sub a b = js_add a (js_neg b)"

fun js_mul :: "jsnum \<Rightarrow> jsnum \<Rightarrow> jsnum" where
  "js_mul NaN b = NaN"
| "js_mul PInf NaN = NaN"
| "js_mul PInf PInf = PInf"
| "js_mul PInf NInf = NInf"
| "js_mul PInf (Fin b) = (if b = 0 then NaN else if b > 0 then PInf else NInf)"
| "js_mul NInf NaN = NaN"
| "js_mul NInf PInf = NInf"
| "js_mul NInf NInf = PInf"
| "js_mul NInf (Fin b) = (if b = 0 then NaN else if b > 0 then NInf else PInf)"
| "js_mul (Fin a) NaN = NaN"
| "js_mul (Fin a) PInf = (if a = 0 then NaN else if a > 0 then PInf else NInf)"
| "js_mul (Fin a) NInf = (if a = 0 then NaN else if a > 0 then NInf else PInf)"
| "js_mul (Fin a) (Fin b) = fl (a * b)"

text \<open>Division by a positive finite constant; the script divides by \<open>1000\<close> only.\<close>

fun js_div_pos :: "jsnum \<Rightarrow> real \<Rightarrow> jsnum" where
  "js_div_pos NaN d = NaN"
| "js_div_pos PInf d = PInf"
| "js_div_pos NInf d = NInf"
| "js_div_pos (Fin a) d = fl (a / d)"

text \<open>The comparisons \<open>a <= b\<close> and \<open>a >= b\<close>: false when either side is \<open>NaN\<close>.\<close>

fun js_le :: "jsnum \<Rightarrow> jsnum \<Rightarrow> bool" where
  "js_le NaN b = False"
| "js_le PInf NaN = False"
| "js_le PInf PInf = True"
| "js_le PInf NInf = False"
| "js_le PInf (Fin b) = False"
| "js_le NInf NaN = False"
| "js_le NInf PInf = True"
| "js_le NInf NInf = True"
| "js_le NInf (Fin b) = True"
| "js_le (Fin a) NaN = False"
| "js_le (Fin a) PInf = True"
| "js_le (Fin a) NInf = False"
| "js_le (Fin a) (Fin b) = (a \<le> b)"

definition js_ge :: "jsnum \<Rightarrow> jsnum \<Rightarrow> bool" where
  "js_ge a b = js_le b a"

subsection \<open>The loop\<close>

text \<open>
  The module-level variables of the animation, the \<open>transform\<close> offset written to the
  moving group, and the part of the browser the loop talks to: the handles of the
  animation frame callbacks that are requested and neither run nor cancelled yet (every
  callback of this script is \<open>svgAnimate\<close>), and the last handle the browser gave out.
\<close>

record anim =
  svgAnimReq :: "nat option"
  svgX :: jsnum
  svgDir :: jsnum
  svgPlaying :: bool
  lastTimestamp :: "jsnum option"
  translateX :: jsnum
  pending :: "nat list"
  lastHandle :: nat

definition svgMin :: jsnum where "svgMin = Fin 30"
definition svgMax :: jsnum where "svgMax = Fin 770"
definition svgVelocityBase :: jsnum where "svgVelocityBase = Fin 100"

text \<open>A position within the bounds, as the script's comparisons see it.\<close>

definition within_bounds :: "jsnum \<Rightarrow> bool" where
  "within_bounds n \<longleftrightarrow> js_le svgMin n \<and> js_le n svgMax"

text \<open>
  \<open>requestAnimationFrame(svgAnimate)\<close>: the browser increments its handle counter,
  queues the callback under the new handle and returns the handle.
  \<open>cancelAnimationFrame(h)\<close> removes the callback queued under \<open>h\<close>.
\<close>

definition requestAnimationFrame :: "anim \<Rightarrow> nat \<times> anim" where
  "requestAnimationFrame s =
     (let h = Suc (lastHandle s) in (h, s\<lparr>pending := pending s @ [h], lastHandle := h\<rparr>))"

definition cancelAnimationFrame :: "nat \<Rightarrow> anim \<Rightarrow> anim" where
  "cancelAnimationFrame h s = s\<lparr>pending := removeAll h (pending s)\<rparr>"

text \<open>
  JavaScript truthiness of a handle or timestamp variable: \<open>null\<close>, \<open>0\<close> and \<open>NaN\<close>
  are falsy.
\<close>

definition truthy_handle :: "nat option \<Rightarrow> bool" where
  "truthy_handle r = (case r of None \<Rightarrow> False | Some h \<Rightarrow> h \<noteq> 0)"

definition truthy_number :: "jsnum option \<Rightarrow> bool" where
  "truthy_number r =
     (case r of
        None \<Rightarrow> False
      | Some NaN \<Rightarrow> False
      | Some PInf \<Rightarrow> True
      | Some NInf \<Rightarrow> True
      | Some (Fin t) \<Rightarrow> t \<noteq> 0)"

text \<open>
  \<open>svgAnimate(ts)\<close>. The speed factor \<open>parseFloat(svgSpeed.value)\<close> is read from the
  page; it is the second argument here.
\<close>

definition svgAnimate :: "jsnum \<Rightarrow> jsnum \<Rightarrow> anim \<Rightarrow> anim" where
  "svgAnimate ts speedFactor s =
     (let last = (case lastTimestamp s of
                    None \<Rightarrow> ts
                  | Some t \<Rightarrow> if truthy_number (Some t) then t else ts);
          dt = js_div_pos (js_sub ts last) 1000;
          s1 = s\<lparr>lastTimestamp := Some ts\<rparr>;
          velocity = js_mul svgVelocityBase speedFactor;
          s2 = s1\<lparr>svgX := js_add (svgX s1) (js_mul (js_mul (svgDir s1) velocity) dt)\<rparr>;
          s3 = (if js_ge (svgX s2) svgMax then s2\<lparr>svgX := svgMax, svgDir := Fin (- 1)\<rparr>
                else if js_le (svgX s2) svgMin then s2\<lparr>svgX := svgMin, svgDir := Fin 1\<rparr>
                else s2);
          s4 = s3\<lparr>translateX := js_sub (svgX s3) (Fin 50)\<rparr>
      in if svgPlaying s4
         then (case requestAnimationFrame s4 of (h, s5) \<Rightarrow> s5\<lparr>svgAnimReq := Some h\<rparr>)
         else s4)"

definition startSvg :: "anim \<Rightarrow> anim" where
  "startSvg s =
     (if svgPlaying s then s
      else case requestAnimationFrame (s\<lparr>svgPlaying := True, lastTimestamp := None\<rparr>) of
             (h, s') \<Rightarrow> s'\<lparr>svgAnimReq := Some h\<rparr>)"

definition pauseSvgAnim :: "anim \<Rightarrow> anim" where
  "pauseSvgAnim s =
     (let s1 = s\<lparr>svgPlaying := False\<rparr>
      in if truthy_handle (svgAnimReq s1)
         then (case svgAnimReq s1 of
                 None \<Rightarrow> s1
               | Some h \<Rightarrow> (cancelAnimationFrame h s1)\<lparr>svgAnimReq := None\<rparr>)
         else s1)"

text \<open>
  The browser's frame: it takes the callbacks queued so far out of the queue and runs
  each with the frame's timestamp; a callback requested meanwhile waits for the next
  frame.
\<close>

definition runFrame :: "jsnum \<Rightarrow> jsnum \<Rightarrow> anim \<Rightarrow> anim" where
  "runFrame ts speedFactor s =
     fold (\<lambda>h. svgAnimate ts speedFactor) (pending s) (s\<lparr>pending := []\<rparr>)"

text \<open>
  The state when the script has loaded: the variables as declared, and the first frame
  requested by the script's last line.
\<close>

definition anim_declared :: anim where
  "anim_declared = \<lparr>svgAnimReq = None, svgX = Fin 50, svgDir = Fin 1, svgPlaying = True,
                     lastTimestamp = None, translateX = Fin 0, pending = [], lastHandle = 0\<rparr>"

definition anim_init :: anim where
  "anim_init = (case requestAnimationFrame anim_declared of (h, s) \<Rightarrow> s\<lparr>svgAnimReq := Some h\<rparr>)"

datatype anim_event = Play | Pause | Frame jsnum jsnum

fun anim_step :: "anim_event \<Rightarrow> anim \<Rightarrow> anim" where
  "anim_step Play s = startSvg s"
| "anim_step Pause s = pauseSvgAnim s"
| "anim_step (Frame ts speedFactor) s = runFrame ts speedFactor s"

inductive anim_reachable :: "anim \<Rightarrow> bool" where
  anim_reachable_init: "anim_reachable anim_init"
| anim_reachable_step: "anim_reachable s \<Longrightarrow> anim_reachable (anim_step e s)"

text \<open>The two states of the loop, read off the flag \<open>svgPlaying\<close>.\<close>

datatype mode = Stopped | Running

definition mode_of :: "anim \<Rightarrow> mode" where
  "mode_of s = (if svgPlaying s then Running else Stopped)"

text \<open>
  How the queue relates to the mode: running, exactly the frame remembered in
  \<open>svgAnimReq\<close> is queued; stopped, none is and \<open>svgAnimReq\<close> is \<open>null\<close>.
\<close>

definition scheduled_ok :: "anim \<Rightarrow> bool" where
  "scheduled_ok s =
     (if svgPlaying s
      then (case svgAnimReq s of None \<Rightarrow> False | Some h \<Rightarrow> h \<noteq> 0 \<and> pending s = [h])
      else svgAnimReq s = None \<and> pending s = [])"

section \<open>The product listing (second script)\<close>

text \<open>A product record of the catalogue, and the card the page shows for it.\<close>

record product =
  title :: string
  price :: real
  category :: string
  image :: string

record card =
  card_image :: string
  card_title :: string
  card_category :: string
  card_price :: real

text \<open>
  Arrays are objects: the store holds every array the script has, an address is an
  index into it, and a new array gets the next index. \<open>allProducts\<close> is the global
  (undefined until the fetch has completed), \<open>container\<close> the cards of \<open>#product-list\<close>.
\<close>

record page =
  store :: "product list list"
  allProducts :: "nat option"
  container :: "card list"

definition new_array :: "product list \<Rightarrow> page \<Rightarrow> nat \<times> page" where
  "new_array xs s = (length (store s), s\<lparr>store := store s @ [xs]\<rparr>)"

definition read_array :: "nat \<Rightarrow> page \<Rightarrow> js_error + product list" where
  "read_array a s = (if a < length (store s) then Inr (store s ! a) else Inl TypeError)"

text \<open>\<open>renderProducts(products)\<close>: empties the container, then appends a card per product.\<close>

definition product_card :: "product \<Rightarrow> card" where
  "product_card p = \<lparr>card_image = image p, card_title = title p,
               card_category = category p, card_price = price p\<rparr>"

definition renderProducts :: "nat \<Rightarrow> page \<Rightarrow> js_error + page" where
  "renderProducts a s =
     (case read_array a s of
        Inl e \<Rightarrow> Inl e
      | Inr products \<Rightarrow>
          Inr (fold (\<lambda>p s'. s'\<lparr>container := container s' @ [product_card p]\<rparr>) products
                 (s\<lparr>container := []\<rparr>)))"

text \<open>The fetch completing with the array \<open>data\<close>.\<close>

definition fetchProducts :: "product list \<Rightarrow> page \<Rightarrow> js_error + page" where
  "fetchProducts data s =
     (case new_array data s of (a, s1) \<Rightarrow> renderProducts a (s1\<lparr>allProducts := Some a\<rparr>))"

text \<open>\<open>[...allProducts]\<close>: a new array with the same elements; a TypeError when undefined.\<close>

definition spread :: "nat option \<Rightarrow> page \<Rightarrow> js_error + nat \<times> page" where
  "spread r s =
     (case r of
        None \<Rightarrow> Inl TypeError
      | Some a \<Rightarrow>
         (case read_array a s of
            Inl e \<Rightarrow> Inl e
          | Inr xs \<Rightarrow> Inr (new_array xs s)))"

text \<open>
  \<open>array.sort(compare)\<close> sorts the array at the address in place and is stable; with
  the comparison \<open>a.price - b.price\<close> it orders by ascending price, with
  \<open>b.price - a.price\<close> by descending price, which is ascending negated price.
\<close>

definition sort_in_place :: "(product \<Rightarrow> real) \<Rightarrow> nat \<Rightarrow> page \<Rightarrow> page" where
  "sort_in_place key a s = s\<lparr>store := (store s)[a := sort_key key (store s ! a)]\<rparr>"

definition sortPriceLow :: "page \<Rightarrow> js_error + page" where
  "sortPriceLow s =
     (case spread (allProducts s) s of
        Inl e \<Rightarrow> Inl e
      | Inr (sorted', s1) \<Rightarrow> renderProducts sorted' (sort_in_place price sorted' s1))"

definition sortPriceHigh :: "page \<Rightarrow> js_error + page" where
  "sortPriceHigh s =
     (case spread (allProducts s) s of
        Inl e \<Rightarrow> Inl e
      | Inr (sorted', s1) \<Rightarrow> renderProducts sorted' (sort_in_place (\<lambda>p. - price p) sorted' s1))"

text \<open>\<open>allProducts.filter(...)\<close>: a new array of the elements that pass, in order.\<close>

definition filterCategory :: "string \<Rightarrow> page \<Rightarrow> js_error + page" where
  "filterCategory cat s =
     (case allProducts s of
        None \<Rightarrow> Inl TypeError
      | Some a \<Rightarrow>
         (case read_array a s of
            Inl e \<Rightarrow> Inl e
          | Inr xs \<Rightarrow>
             (case new_array (filter (\<lambda>product. category product = cat) xs) s of
                (filtered, s1) \<Rightarrow> renderProducts filtered s1)))"

text \<open>Three products, for examples.\<close>

definition shirt :: product where
  "shirt = \<lparr>title = ''Shirt'', price = 20, category = ''clothing'', image = ''s.png''\<rparr>"

definition ring :: product where
  "ring = \<lparr>title = ''Ring'', price = 99, category = ''jewelery'', image = ''r.png''\<rparr>"

definition socks :: product where
  "socks = \<lparr>title = ''Socks'', price = 5, category = ''clothing'', image = ''k.png''\<rparr>"

section \<open>Facts about the drawing widget\<close>

subsection \<open>Drawing and redrawing\<close>

lemma drawSegment_Some:
  "drawSegment (Some a) (Some b) col sz c =
     Inr (c\<lparr>lineJoin := ''round'', lineCap := ''round'', strokeStyle := col, lineWidth := sz,
            surface := surface c @ [Segment a b col sz ''round'' ''round'']\<rparr>)"
  by (simp add: drawSegment_def Let_def)

lemma segLoop_Inr:
  "1 \<le> i \<Longrightarrow>
   \<exists>c'. segLoop i pts col sz c = Inr c' \<and>
        surface c' = surface c @
          map (\<lambda>(a, b). Segment a b col sz ''round'' ''round'') (zip (drop (i - 1) pts) (drop i pts))"
proof (induction i pts col sz c rule: segLoop.induct)
  case (1 i pts col sz c)
  show ?case
  proof (cases "i < length pts")
    case False
    then show ?thesis by (subst segLoop.simps) simp
  next
    case True
    let ?c1 = "c\<lparr>lineJoin := ''round'', lineCap := ''round'', strokeStyle := col, lineWidth := sz,
            surface := surface c @ [Segment (pts ! (i - 1)) (pts ! i) col sz ''round'' ''round'']\<rparr>"
    from True have lt: "i - 1 < length pts" by simp
    from True lt have ds: "drawSegment (nth_js pts (i - 1)) (nth_js pts i) col sz c = Inr ?c1"
      by (simp only: nth_js_def if_True drawSegment_Some)
    from "1.IH"[OF True ds] obtain c' where
      c': "segLoop (i + 1) pts col sz ?c1 = Inr c'"
          "surface c' = surface ?c1 @
             map (\<lambda>(a, b). Segment a b col sz ''round'' ''round'') (zip (drop i pts) (drop (i + 1) pts))"
      by auto
    have d1: "drop (i - 1) pts = pts ! (i - 1) # drop i pts"
      using True "1.prems" Cons_nth_drop_Suc[of "i - 1" pts] by simp
    have d2: "drop i pts = pts ! i # drop (i + 1) pts"
      using True Cons_nth_drop_Suc[of i pts] by simp
    have z: "zip (drop (i - 1) pts) (drop i pts) =
               (pts ! (i - 1), pts ! i) # zip (drop i pts) (drop (i + 1) pts)"
      by (subst d1, subst d2) simp
    have "segLoop i pts col sz c = segLoop (i + 1) pts col sz ?c1"
      using True ds by (subst segLoop.simps) simp
    with c' show ?thesis by (simp only: z) simp
  qed
qed

lemma spec_draw_stroke_segments:
  "length (points s) \<noteq> 1 \<Longrightarrow>
   spec_draw_stroke s =
     map (\<lambda>(a, b). Segment a b (color s) (size_b s) ''round'' ''round'')
       (zip (points s) (drop 1 (points s)))"
  by (cases "points s"; cases "tl (points s)")
     (auto simp: spec_draw_stroke_def drop_Suc split: list.splits)

lemma redrawStroke_Inr:
  "\<exists>c'. redrawStroke s c = Inr c' \<and> surface c' = surface c @ spec_draw_stroke s"
proof (cases "length (points s) = 1")
  case True
  then obtain p where p: "points s = [p]"
    by (cases "points s") auto
  then show ?thesis
    by (simp add: redrawStroke_def spec_draw_stroke_def nth_js_def drawDot_def spec_dot_def)
next
  case False
  from segLoop_Inr[of 1 "points s" "color s" "size_b s" c]
  obtain c' where "segLoop 1 (points s) (color s) (size_b s) c = Inr c'"
    "surface c' = surface c @
        map (\<lambda>(a, b). Segment a b (color s) (size_b s) ''round'' ''round'')
          (zip (points s) (drop 1 (points s)))"
    by auto
  with False show ?thesis
    by (simp add: redrawStroke_def spec_draw_stroke_segments)
qed

lemma redrawStrokes_Inr:
  "\<exists>c'. redrawStrokes ss c = Inr c' \<and> surface c' = surface c @ concat (map spec_draw_stroke ss)"
proof (induction ss arbitrary: c)
  case Nil
  show ?case by simp
next
  case (Cons s ss)
  from redrawStroke_Inr[of s c] obtain c1 where
    c1: "redrawStroke s c = Inr c1" "surface c1 = surface c @ spec_draw_stroke s" by auto
  from Cons.IH[of c1] obtain c2 where
    c2: "redrawStrokes ss c1 = Inr c2" "surface c2 = surface c1 @ concat (map spec_draw_stroke ss)" by auto
  from c1 c2 show ?case by simp
qed

lemma redrawAll_Inr:
  "\<exists>c'. redrawAll st = Inr (st\<lparr>ctx := c'\<rparr>) \<and>
        surface c' = concat (map spec_draw_stroke (strokes st))"
proof -
  from redrawStrokes_Inr[of "strokes st" "clearRect (ctx st)"] obtain c' where
    "redrawStrokes (strokes st) (clearRect (ctx st)) = Inr c'"
    "surface c' = surface (clearRect (ctx st)) @ concat (map spec_draw_stroke (strokes st))" by auto
  then show ?thesis by (auto simp: redrawAll_def clearRect_def)
qed

lemma addPoint_in_progress:
  assumes "drawing st" and "currentStroke st = Some cur"
  shows "\<exists>c'. addPointToStroke x y st =
           Inr (st\<lparr>currentStroke := Some (cur\<lparr>points := points cur @ [\<lparr>px = x, py = y\<rparr>]\<rparr>),
                   ctx := c'\<rparr>)"
proof (cases "length (points cur) \<ge> 1")
  case True
  have lt: "length (points cur) - Suc 0 < Suc (length (points cur))" by arith
  from assms True lt show ?thesis
    by (auto simp add: addPointToStroke_def Let_def nth_js_def drawSegment_Some)
next
  case False
  with assms show ?thesis
    by (auto simp add: addPointToStroke_def Let_def)
qed

lemma addPoint_idle:
  "\<not> drawing st \<or> currentStroke st = None \<Longrightarrow> addPointToStroke x y st = Inr st"
  by (auto simp: addPointToStroke_def)

lemma addPoint_total: "\<exists>st'. addPointToStroke x y st = Inr st'"
proof (cases "drawing st \<and> currentStroke st \<noteq> None")
  case True
  then obtain cur where "drawing st" "currentStroke st = Some cur" by auto
  from addPoint_in_progress[OF this] show ?thesis by blast
next
  case False
  then show ?thesis using addPoint_idle[of st x y] by auto
qed

lemma run_append:
  "run (as @ bs) st = (case run as st of Inl e \<Rightarrow> Inl e | Inr st' \<Rightarrow> run bs st')"
  by (induction as arbitrary: st) (auto split: sum.splits)

lemma run_extends:
  "drawing st \<Longrightarrow> currentStroke st = Some cur \<Longrightarrow>
   \<exists>st'. run (map (\<lambda>p. Extend (px p) (py p)) ps) st = Inr st' \<and> drawing st' \<and>
         currentStroke st' = Some (cur\<lparr>points := points cur @ ps\<rparr>) \<and>
         strokes st' = strokes st"
proof (induction ps arbitrary: st cur)
  case Nil
  then show ?case by simp
next
  case (Cons p ps)
  have p: "\<lparr>px = px p, py = py p\<rparr> = p" by (cases p) simp
  from addPoint_in_progress[OF Cons.prems, of "px p" "py p"] p obtain c' where
    st1: "addPointToStroke (px p) (py p) st =
            Inr (st\<lparr>currentStroke := Some (cur\<lparr>points := points cur @ [p]\<rparr>), ctx := c'\<rparr>)"
    by auto
  let ?st1 = "st\<lparr>currentStroke := Some (cur\<lparr>points := points cur @ [p]\<rparr>), ctx := c'\<rparr>"
  from Cons.prems have "drawing ?st1" "currentStroke ?st1 = Some (cur\<lparr>points := points cur @ [p]\<rparr>)"
    by simp_all
  from Cons.IH[OF this] st1 show ?case by simp
qed

lemma stroke_commit:
  "\<exists>st'. run (Begin c s (px p0) (py p0) # map (\<lambda>p. Extend (px p) (py p)) ps @ [End]) st = Inr st' \<and>
         strokes st' = strokes st @ [\<lparr>color = c, size_b = s, points = p0 # ps\<rparr>] \<and>
         currentStroke st' = None \<and> drawing st' = False"
proof -
  let ?b = "beginStroke c s (px p0) (py p0) st"
  have "drawing ?b" "currentStroke ?b = Some \<lparr>color = c, size_b = s, points = [p0]\<rparr>"
    by (simp_all add: beginStroke_def)
  from run_extends[OF this, of ps] obtain st1 where
    st1: "run (map (\<lambda>p. Extend (px p) (py p)) ps) ?b = Inr st1" "drawing st1"
         "currentStroke st1 = Some \<lparr>color = c, size_b = s, points = p0 # ps\<rparr>"
         "strokes st1 = strokes st"
    by (auto simp: beginStroke_def)
  then show ?thesis
    by (simp add: run_append endStroke_def Let_def)
qed

lemma undoLast_Inr:
  "\<exists>c'. undoLast st = Inr (st\<lparr>strokes := butlast (strokes st), ctx := c'\<rparr>) \<and>
        surface c' = concat (map spec_draw_stroke (butlast (strokes st)))"
  using redrawAll_Inr[of "st\<lparr>strokes := butlast (strokes st)\<rparr>"] by (simp add: undoLast_def)

lemma clearCanvas_Inr:
  "\<exists>c'. clearCanvas st = Inr (st\<lparr>strokes := [], currentStroke := None, ctx := c'\<rparr>) \<and>
        surface c' = []"
  using redrawAll_Inr[of "st\<lparr>strokes := [], currentStroke := None\<rparr>"] by (simp add: clearCanvas_def)

lemma step_total: "\<exists>st'. step a st = Inr st'"
proof (cases a)
  case (Extend x y)
  then show ?thesis using addPoint_total[of x y st] by simp
next
  case Undo
  then show ?thesis using undoLast_Inr[of st] by auto
next
  case Clear
  then show ?thesis using clearCanvas_Inr[of st] by auto
next
  case Redraw
  then show ?thesis using redrawAll_Inr[of st] by auto
qed simp_all

lemma step_preserves:
  assumes "committed_ok st" "current_ok st" "step a st = Inr st'"
  shows "committed_ok st' \<and> current_ok st'"
proof (cases a)
  case (Begin c s x y)
  with assms show ?thesis
    by (auto simp: committed_ok_def current_ok_def beginStroke_def)
next
  case (Extend x y)
  show ?thesis
  proof (cases "drawing st \<and> currentStroke st \<noteq> None")
    case True
    then obtain cur where c: "drawing st" "currentStroke st = Some cur" by auto
    from addPoint_in_progress[OF c, of x y] assms Extend show ?thesis
      by (auto simp: committed_ok_def current_ok_def)
  next
    case False
    then have "addPointToStroke x y st = Inr st" using addPoint_idle[of st x y] by auto
    with assms Extend show ?thesis by simp
  qed
next
  case End
  with assms show ?thesis
    by (auto simp: committed_ok_def current_ok_def endStroke_def Let_def split: option.splits if_splits)
next
  case Undo
  have "set (butlast (strokes st)) \<subseteq> set (strokes st)"
    by (auto dest: in_set_butlastD)
  with undoLast_Inr[of st] assms Undo show ?thesis
    by (auto simp: committed_ok_def current_ok_def list_all_iff)
next
  case Clear
  from clearCanvas_Inr[of st] assms Clear show ?thesis
    by (auto simp: committed_ok_def current_ok_def)
next
  case Redraw
  from redrawAll_Inr[of st] assms Redraw show ?thesis
    by (auto simp: committed_ok_def current_ok_def)
qed

lemma reachable_ok: "reachable st \<Longrightarrow> committed_ok st \<and> current_ok st"
proof (induction rule: reachable.induct)
  case reachable_init
  show ?case by (simp add: committed_ok_def current_ok_def init_def)
next
  case (reachable_step st a st')
  then show ?case using step_preserves by blast
qed

lemma beginStroke_reachable: "reachable st \<Longrightarrow> reachable (beginStroke c s x y st)"
  using reachable_step[of st "Begin c s x y"] by simp

lemma endStroke_reachable: "reachable st \<Longrightarrow> reachable (endStroke st)"
  using reachable_step[of st End] by simp

section \<open>The claims about the drawing widget\<close>

subsection \<open>C1: what the full redraw paints\<close>

text \<open>
  Claim C1 says that \<open>redrawAll\<close> clears the surface, draws every committed stroke in
  commit order (a one-point stroke as a dot of diameter \<open>size\<close>, a longer one as the
  segments between consecutive points) and then draws the stroke in progress on top.
  The code draws from the \<open>strokes\<close> array only. Amended, C1 reads: for every state
  \<open>redrawAll\<close> returns, changes nothing but the context, and leaves on the surface
  exactly the committed strokes drawn in commit order onto a cleared surface, whatever
  was painted before; the stroke in progress is not drawn, so the surface is the one the
  specification describes for \<open>strokes\<close> plus the stroke in progress when no stroke
  is in progress.
\<close>

theorem redrawAll_committed_only:
  "(\<exists>c'. redrawAll st = Inr (st\<lparr>ctx := c'\<rparr>)) \<and>
   rendered (redrawAll st) = Some (spec_render (strokes st) None) \<and>
   (currentStroke st = None \<longrightarrow>
      rendered (redrawAll st) = Some (spec_render (strokes st) (currentStroke st)))"
  using redrawAll_Inr[of st] by (auto simp: rendered_def spec_render_def)

text \<open>
  C1, an instance: a three-point red stroke and a one-point blue stroke give two
  segments and a dot of radius 1.
\<close>

theorem redrawAll_committed_only_witness:
  "rendered (redrawAll
      (init\<lparr>strokes := [\<lparr>color = ''red'', size_b = 4,
                           points = [\<lparr>px = 0, py = 0\<rparr>, \<lparr>px = 10, py = 0\<rparr>, \<lparr>px = 10, py = 10\<rparr>]\<rparr>,
                         \<lparr>color = ''blue'', size_b = 2, points = [\<lparr>px = 5, py = 5\<rparr>]\<rparr>]\<rparr>)) =
   Some [Segment \<lparr>px = 0, py = 0\<rparr> \<lparr>px = 10, py = 0\<rparr> ''red'' 4 ''round'' ''round'',
         Segment \<lparr>px = 10, py = 0\<rparr> \<lparr>px = 10, py = 10\<rparr> ''red'' 4 ''round'' ''round'',
         Dot 5 5 1 ''blue'']"
  using redrawAll_committed_only[of
      "init\<lparr>strokes := [\<lparr>color = ''red'', size_b = 4,
                           points = [\<lparr>px = 0, py = 0\<rparr>, \<lparr>px = 10, py = 0\<rparr>, \<lparr>px = 10, py = 10\<rparr>]\<rparr>,
                         \<lparr>color = ''blue'', size_b = 2, points = [\<lparr>px = 5, py = 5\<rparr>]\<rparr>]\<rparr>"]
  by (simp add: init_def spec_render_def spec_draw_stroke_def spec_dot_def)

text \<open>
  C1 as stated fails in the state reached from the initial one by a pointer-down at
  \<open>(0, 0)\<close> with the red brush of size 4: the redraw leaves the surface empty, and the
  specification's renderer paints the dot of the stroke in progress.
\<close>

theorem redrawAll_in_progress_counterexample:
  "reachable (beginStroke ''red'' 4 0 0 init) \<and>
   currentStroke (beginStroke ''red'' 4 0 0 init) =
     Some \<lparr>color = ''red'', size_b = 4, points = [\<lparr>px = 0, py = 0\<rparr>]\<rparr> \<and>
   rendered (redrawAll (beginStroke ''red'' 4 0 0 init)) = Some [] \<and>
   spec_render (strokes (beginStroke ''red'' 4 0 0 init))
     (currentStroke (beginStroke ''red'' 4 0 0 init)) = [Dot 0 0 2 ''red''] \<and>
   rendered (redrawAll (beginStroke ''red'' 4 0 0 init)) \<noteq>
     Some (spec_render (strokes (beginStroke ''red'' 4 0 0 init))
             (currentStroke (beginStroke ''red'' 4 0 0 init)))"
proof -
  have r: "reachable (beginStroke ''red'' 4 0 0 init)"
    by (rule beginStroke_reachable) (rule reachable_init)
  have a: "rendered (redrawAll (beginStroke ''red'' 4 0 0 init)) = Some []"
    by (simp add: rendered_def redrawAll_def beginStroke_def init_def clearRect_def)
  have b: "spec_render (strokes (beginStroke ''red'' 4 0 0 init))
     (currentStroke (beginStroke ''red'' 4 0 0 init)) = [Dot 0 0 2 ''red'']"
    by (simp add: spec_render_def spec_draw_stroke_def spec_dot_def beginStroke_def init_def)
  have c: "currentStroke (beginStroke ''red'' 4 0 0 init) =
     Some \<lparr>color = ''red'', size_b = 4, points = [\<lparr>px = 0, py = 0\<rparr>]\<rparr>"
    by (simp add: beginStroke_def)
  from r a b c show ?thesis by simp
qed

subsection \<open>C2: a gesture commits one stroke\<close>

text \<open>
  Claim C2: from every prior state (in particular one with no stroke in progress),
  \<open>begin(p0, c, s)\<close>, then \<open>extend(p1)\<close>, ..., \<open>extend(pN)\<close>, then \<open>end()\<close> returns, and
  afterwards \<open>strokes\<close> is the prior list with exactly one stroke appended at the end,
  whose points are \<open>[p0, p1, ..., pN]\<close> in order, with colour \<open>c\<close> and size \<open>s\<close>.
\<close>

theorem stroke_commit_appends:
  "\<exists>st'. run (Begin c s (px p0) (py p0) # map (\<lambda>p. Extend (px p) (py p)) ps @ [End]) st = Inr st' \<and>
         strokes st' = strokes st @ [\<lparr>color = c, size_b = s, points = p0 # ps\<rparr>] \<and>
         length (strokes st') = length (strokes st) + 1 \<and>
         currentStroke st' = None"
  using stroke_commit[of c s p0 ps st] by auto

text \<open>C2, the specification's scenario: three points with the red brush of size 4.\<close>

theorem stroke_commit_appends_witness:
  "\<exists>st'. run [Begin ''red'' 4 0 0, Extend 10 0, Extend 10 10, End] init = Inr st' \<and>
         strokes st' = [\<lparr>color = ''red'', size_b = 4,
                         points = [\<lparr>px = 0, py = 0\<rparr>, \<lparr>px = 10, py = 0\<rparr>, \<lparr>px = 10, py = 10\<rparr>]\<rparr>]"
  using stroke_commit_appends[of "''red''" 4 "\<lparr>px = 0, py = 0\<rparr>"
      "[\<lparr>px = 10, py = 0\<rparr>, \<lparr>px = 10, py = 10\<rparr>]" init]
  by (auto simp add: init_def)

subsection \<open>C3: undo\<close>

text \<open>
  Claim C3: for every state \<open>undoLast\<close> returns; on a non-empty \<open>strokes\<close> it removes
  exactly the last stroke and leaves the earlier ones, in order, as they were; on an
  empty \<open>strokes\<close> the list stays empty (length 0); the stroke in progress and the
  \<open>drawing\<close> flag are never changed.
\<close>

theorem undoLast_removes_last:
  "\<exists>st'. undoLast st = Inr st' \<and>
         strokes st' = butlast (strokes st) \<and>
         (\<forall>ss s. strokes st = ss @ [s] \<longrightarrow> strokes st' = ss) \<and>
         (strokes st = [] \<longrightarrow> strokes st' = [] \<and> length (strokes st') = 0) \<and>
         currentStroke st' = currentStroke st \<and>
         drawing st' = drawing st"
  using undoLast_Inr[of st] by auto

text \<open>
  C3, two instances: two committed strokes with a third in progress, and the initial
  state.
\<close>

theorem undoLast_removes_last_witness:
  "(\<exists>st'. undoLast
      (init\<lparr>drawing := True,
            currentStroke := Some \<lparr>color = ''green'', size_b = 3, points = [\<lparr>px = 1, py = 1\<rparr>]\<rparr>,
            strokes := [\<lparr>color = ''red'', size_b = 4, points = [\<lparr>px = 0, py = 0\<rparr>, \<lparr>px = 10, py = 0\<rparr>]\<rparr>,
                        \<lparr>color = ''blue'', size_b = 2, points = [\<lparr>px = 5, py = 5\<rparr>]\<rparr>]\<rparr>) = Inr st' \<and>
      strokes st' = [\<lparr>color = ''red'', size_b = 4, points = [\<lparr>px = 0, py = 0\<rparr>, \<lparr>px = 10, py = 0\<rparr>]\<rparr>] \<and>
      currentStroke st' = Some \<lparr>color = ''green'', size_b = 3, points = [\<lparr>px = 1, py = 1\<rparr>]\<rparr>) \<and>
   (\<exists>st'. undoLast init = Inr st' \<and> strokes st' = [] \<and> currentStroke st' = None)"
  using undoLast_removes_last[of
      "init\<lparr>drawing := True,
            currentStroke := Some \<lparr>color = ''green'', size_b = 3, points = [\<lparr>px = 1, py = 1\<rparr>]\<rparr>,
            strokes := [\<lparr>color = ''red'', size_b = 4, points = [\<lparr>px = 0, py = 0\<rparr>, \<lparr>px = 10, py = 0\<rparr>]\<rparr>,
                        \<lparr>color = ''blue'', size_b = 2, points = [\<lparr>px = 5, py = 5\<rparr>]\<rparr>]\<rparr>"]
    undoLast_removes_last[of init]
  by (auto simp add: init_def)

subsection \<open>C4: clear\<close>

text \<open>
  Claim C4: from every prior state, \<open>clearCanvas\<close> returns, and afterwards \<open>strokes\<close>
  is empty and there is no stroke in progress (\<open>currentStroke\<close> is \<open>null\<close>). The flag
  \<open>drawing\<close> is left as it was, without effect: a following pointer move records
  nothing, and a following pointer up commits nothing.
\<close>

theorem clearCanvas_empties:
  "\<exists>st'. clearCanvas st = Inr st' \<and> strokes st' = [] \<and> currentStroke st' = None \<and>
         addPointToStroke x y st' = Inr st' \<and> strokes (endStroke st') = []"
  using clearCanvas_Inr[of st]
  by (auto simp: addPointToStroke_def endStroke_def Let_def)

subsection \<open>C5: the operations are total\<close>

text \<open>
  Claim C5: every operation of the stroke model returns a state in every state (no
  exception); \<open>extend\<close> with no stroke in progress (the flag \<open>drawing\<close> unset, or
  \<open>currentStroke\<close> \<open>null\<close>) leaves the state unchanged; \<open>end\<close> with the flag unset
  leaves the state unchanged, and with \<open>currentStroke\<close> \<open>null\<close> it changes neither
  \<open>strokes\<close> nor \<open>currentStroke\<close> nor the surface; \<open>begin(point, color, size)\<close> in any
  state, so also with a stroke in progress, replaces the stroke in progress by a new one
  with points \<open>[point]\<close> and leaves \<open>strokes\<close> unchanged.
\<close>

theorem stroke_operations_total:
  "(\<exists>st'. step a st = Inr st') \<and>
   (\<not> drawing st \<or> currentStroke st = None \<longrightarrow> step (Extend x y) st = Inr st) \<and>
   (\<not> drawing st \<longrightarrow> step End st = Inr st) \<and>
   (currentStroke st = None \<longrightarrow>
      (\<exists>st'. step End st = Inr st' \<and> strokes st' = strokes st \<and>
             currentStroke st' = None \<and> ctx st' = ctx st)) \<and>
   (\<exists>st'. step (Begin c s x y) st = Inr st' \<and>
          currentStroke st' = Some \<lparr>color = c, size_b = s, points = [\<lparr>px = x, py = y\<rparr>]\<rparr> \<and>
          strokes st' = strokes st)"
proof -
  have 1: "\<exists>st'. step a st = Inr st'" by (rule step_total)
  have 2: "\<not> drawing st \<or> currentStroke st = None \<longrightarrow> step (Extend x y) st = Inr st"
    using addPoint_idle[of st x y] by simp
  have 3: "\<not> drawing st \<longrightarrow> step End st = Inr st"
    by (simp add: endStroke_def)
  have 4: "currentStroke st = None \<longrightarrow>
      (\<exists>st'. step End st = Inr st' \<and> strokes st' = strokes st \<and>
             currentStroke st' = None \<and> ctx st' = ctx st)"
    by (simp add: endStroke_def Let_def)
  have 5: "\<exists>st'. step (Begin c s x y) st = Inr st' \<and>
          currentStroke st' = Some \<lparr>color = c, size_b = s, points = [\<lparr>px = x, py = y\<rparr>]\<rparr> \<and>
          strokes st' = strokes st"
    by (simp add: beginStroke_def)
  from 1 2 3 4 5 show ?thesis by blast
qed

text \<open>
  C5, instances: a move and a pointer-up in the initial state, and a second pointer-down
  while a red stroke is in progress.
\<close>

theorem stroke_operations_total_witness:
  "step (Extend 3 4) init = Inr init \<and>
   step End init = Inr init \<and>
   (\<exists>st'. step (Begin ''blue'' 2 5 5) (beginStroke ''red'' 4 0 0 init) = Inr st' \<and>
          currentStroke st' = Some \<lparr>color = ''blue'', size_b = 2, points = [\<lparr>px = 5, py = 5\<rparr>]\<rparr> \<and>
          strokes st' = [])"
  using stroke_operations_total[of "Extend 3 4" init 3 4 "''blue''" 2]
    stroke_operations_total[of End "beginStroke ''red'' 4 0 0 init" 5 5 "''blue''" 2]
  by (auto simp add: init_def beginStroke_def)

subsection \<open>C6: committed strokes have a point\<close>

text \<open>
  Claim C6: in every state reachable from the initial state by pointer-down, move,
  pointer-up, undo, clear and redraw, every stroke of \<open>strokes\<close> has at least one point.
\<close>

theorem committed_strokes_nonempty:
  "reachable st \<Longrightarrow> \<forall>s \<in> set (strokes st). points s \<noteq> [] \<and> length (points s) \<ge> 1"
proof -
  assume "reachable st"
  then have "committed_ok st" using reachable_ok by blast
  then show ?thesis
    by (auto simp: committed_ok_def list_all_iff Suc_le_eq)
qed

text \<open>C6, the specification's scenario: a pointer-down at \<open>(5, 5)\<close> and a pointer-up.\<close>

theorem committed_strokes_nonempty_witness:
  "reachable (endStroke (beginStroke ''blue'' 2 5 5 init)) \<and>
   strokes (endStroke (beginStroke ''blue'' 2 5 5 init)) =
     [\<lparr>color = ''blue'', size_b = 2, points = [\<lparr>px = 5, py = 5\<rparr>]\<rparr>] \<and>
   points (hd (strokes (endStroke (beginStroke ''blue'' 2 5 5 init)))) \<noteq> []"
proof -
  have r: "reachable (endStroke (beginStroke ''blue'' 2 5 5 init))"
    by (intro endStroke_reachable beginStroke_reachable reachable_init)
  have s: "strokes (endStroke (beginStroke ''blue'' 2 5 5 init)) =
     [\<lparr>color = ''blue'', size_b = 2, points = [\<lparr>px = 5, py = 5\<rparr>]\<rparr>]"
    by (simp add: endStroke_def beginStroke_def init_def Let_def)
  from committed_strokes_nonempty[OF r] s
  have "points (hd (strokes (endStroke (beginStroke ''blue'' 2 5 5 init)))) \<noteq> []"
    by simp
  with r s show ?thesis by simp
qed

subsection \<open>C7: the redraw is determined by the strokes\<close>

text \<open>
  Claim C7: two full redraws in states with the same \<open>strokes\<close> both return and leave
  the same surface, whatever the context's styles and surface, the stroke in progress and
  the flag were before.
\<close>

theorem redrawAll_deterministic:
  "strokes st1 = strokes st2 \<Longrightarrow>
   rendered (redrawAll st1) = rendered (redrawAll st2) \<and> rendered (redrawAll st1) \<noteq> None"
  using redrawAll_Inr[of st1] redrawAll_Inr[of st2] by (auto simp: rendered_def)

text \<open>
  C7, an instance: the initial context against one with other styles and a painted dot.
\<close>

theorem redrawAll_deterministic_witness:
  "rendered (redrawAll (init\<lparr>strokes := [\<lparr>color = ''blue'', size_b = 2, points = [\<lparr>px = 5, py = 5\<rparr>]\<rparr>]\<rparr>)) =
   rendered (redrawAll
     \<lparr>drawing = True,
      currentStroke = Some \<lparr>color = ''red'', size_b = 4, points = [\<lparr>px = 0, py = 0\<rparr>]\<rparr>,
      strokes = [\<lparr>color = ''blue'', size_b = 2, points = [\<lparr>px = 5, py = 5\<rparr>]\<rparr>],
      ctx = \<lparr>lineJoin = ''round'', lineCap = ''round'', strokeStyle = ''red'', lineWidth = 4,
             fillStyle = ''green'', surface = [Dot 1 1 1 ''green'']\<rparr>\<rparr>)"
  using redrawAll_deterministic[of
     "init\<lparr>strokes := [\<lparr>color = ''blue'', size_b = 2, points = [\<lparr>px = 5, py = 5\<rparr>]\<rparr>]\<rparr>"
     "\<lparr>drawing = True,
      currentStroke = Some \<lparr>color = ''red'', size_b = 4, points = [\<lparr>px = 0, py = 0\<rparr>]\<rparr>,
      strokes = [\<lparr>color = ''blue'', size_b = 2, points = [\<lparr>px = 5, py = 5\<rparr>]\<rparr>],
      ctx = \<lparr>lineJoin = ''round'', lineCap = ''round'', strokeStyle = ''red'', lineWidth = 4,
             fillStyle = ''green'', surface = [Dot 1 1 1 ''green'']\<rparr>\<rparr>"]
  by (simp add: init_def)

section \<open>Facts about the animation\<close>

subsection \<open>Numbers\<close>

lemma overflow_bound_pos: "0 < overflow_bound"
proof -
  have "(2::real) ^ 970 < 2 ^ 1024" by (rule power_strict_increasing) simp_all
  then show ?thesis by (simp add: overflow_bound_def)
qed

lemma fl_Fin: "\<bar>r\<bar> < overflow_bound \<Longrightarrow> fl r = Fin r"
  by (auto simp: fl_def)

lemma fl_not_NaN: "fl r \<noteq> NaN"
  by (simp add: fl_def)

lemma js_add_Fin_fl_not_NaN: "js_add (Fin x) (fl r) \<noteq> NaN"
  by (simp add: fl_def)

lemma svgAnimate_svgX:
  "svgX (svgAnimate ts speedFactor s) =
     (let last = (case lastTimestamp s of None \<Rightarrow> ts
                  | Some t \<Rightarrow> if truthy_number (Some t) then t else ts);
          x1 = js_add (svgX s)
                 (js_mul (js_mul (svgDir s) (js_mul svgVelocityBase speedFactor))
                    (js_div_pos (js_sub ts last) 1000))
      in if js_ge x1 svgMax then svgMax else if js_le x1 svgMin then svgMin else x1)"
  by (simp add: svgAnimate_def Let_def requestAnimationFrame_def split: prod.splits)

lemma svgAnimate_svgDir:
  "svgDir (svgAnimate ts speedFactor s) =
     (let last = (case lastTimestamp s of None \<Rightarrow> ts
                  | Some t \<Rightarrow> if truthy_number (Some t) then t else ts);
          x1 = js_add (svgX s)
                 (js_mul (js_mul (svgDir s) (js_mul svgVelocityBase speedFactor))
                    (js_div_pos (js_sub ts last) 1000))
      in if js_ge x1 svgMax then Fin (- 1) else if js_le x1 svgMin then Fin 1 else svgDir s)"
  by (simp add: svgAnimate_def Let_def requestAnimationFrame_def split: prod.splits)

lemma clamp_cases:
  "(if js_ge x1 svgMax then svgMax else if js_le x1 svgMin then svgMin else x1) = svgMax \<and>
     js_ge x1 svgMax \<or>
   (if js_ge x1 svgMax then svgMax else if js_le x1 svgMin then svgMin else x1) = svgMin \<and>
     \<not> js_ge x1 svgMax \<and> js_le x1 svgMin \<or>
   (\<exists>r. x1 = Fin r \<and> 30 < r \<and> r < 770 \<and> \<not> js_ge x1 svgMax \<and> \<not> js_le x1 svgMin) \<or>
   x1 = NaN"
  by (cases x1) (auto simp: js_ge_def svgMax_def svgMin_def)

lemma svgAnimate_four_cases:
  "svgX (svgAnimate ts speedFactor s) = svgMax \<and> svgDir (svgAnimate ts speedFactor s) = Fin (- 1) \<or>
   svgX (svgAnimate ts speedFactor s) = svgMin \<and> svgDir (svgAnimate ts speedFactor s) = Fin 1 \<or>
   (\<exists>r. svgX (svgAnimate ts speedFactor s) = Fin r \<and> 30 < r \<and> r < 770 \<and>
        svgDir (svgAnimate ts speedFactor s) = svgDir s) \<or>
   svgX (svgAnimate ts speedFactor s) = NaN \<and> svgDir (svgAnimate ts speedFactor s) = svgDir s"
proof -
  define last where "last = (case lastTimestamp s of None \<Rightarrow> ts
                  | Some t \<Rightarrow> if truthy_number (Some t) then t else ts)"
  define x1 where "x1 = js_add (svgX s)
                 (js_mul (js_mul (svgDir s) (js_mul svgVelocityBase speedFactor))
                    (js_div_pos (js_sub ts last) 1000))"
  have X: "svgX (svgAnimate ts speedFactor s) =
      (if js_ge x1 svgMax then svgMax else if js_le x1 svgMin then svgMin else x1)"
    by (simp add: svgAnimate_svgX Let_def x1_def last_def)
  have D: "svgDir (svgAnimate ts speedFactor s) =
      (if js_ge x1 svgMax then Fin (- 1) else if js_le x1 svgMin then Fin 1 else svgDir s)"
    by (simp add: svgAnimate_svgDir Let_def x1_def last_def)
  from clamp_cases[of x1] show ?thesis
    unfolding X D by (cases x1) (auto simp: js_ge_def svgMax_def svgMin_def)
qed

lemma moved_not_NaN:
  assumes x: "svgX s = Fin x"
    and d: "svgDir s = Fin 1 \<or> svgDir s = Fin (- 1)"
    and sp: "speedFactor = Fin sp" "\<bar>100 * sp\<bar> < overflow_bound"
    and t: "ts = Fin t"
    and l: "lastTimestamp s = None \<or> (\<exists>l. lastTimestamp s = Some (Fin l) \<and> \<bar>t - l\<bar> < overflow_bound)"
  shows "svgX (svgAnimate ts speedFactor s) \<noteq> NaN"
proof -
  define last where "last = (case lastTimestamp s of None \<Rightarrow> ts
                  | Some t \<Rightarrow> if truthy_number (Some t) then t else ts)"
  have v: "js_mul svgVelocityBase speedFactor = Fin (100 * sp)"
    using sp by (simp add: svgVelocityBase_def fl_Fin)
  from d sp(2) obtain w where w: "js_mul (svgDir s) (Fin (100 * sp)) = Fin w"
    by (auto simp: fl_Fin)
  have "\<exists>e. js_sub ts last = Fin e \<and> \<bar>e\<bar> < overflow_bound"
    using l t overflow_bound_pos
    by (auto simp: last_def js_sub_def truthy_number_def fl_Fin)
  then obtain e where e: "js_sub ts last = Fin e" "\<bar>e\<bar> < overflow_bound" by blast
  have "\<bar>e / 1000\<bar> \<le> \<bar>e\<bar>" by simp
  with e(2) have dt: "js_div_pos (js_sub ts last) 1000 = Fin (e / 1000)"
    by (simp add: e(1) fl_Fin)
  define x1 where "x1 = js_add (svgX s)
                 (js_mul (js_mul (svgDir s) (js_mul svgVelocityBase speedFactor))
                    (js_div_pos (js_sub ts last) 1000))"
  have x1: "x1 \<noteq> NaN"
    unfolding x1_def v w dt x by (simp add: js_add_Fin_fl_not_NaN)
  have X: "svgX (svgAnimate ts speedFactor s) =
      (if js_ge x1 svgMax then svgMax else if js_le x1 svgMin then svgMin else x1)"
    by (simp add: svgAnimate_svgX Let_def x1_def last_def)
  from x1 show ?thesis unfolding X by (simp add: svgMax_def svgMin_def)
qed

lemma overflow_bound_large: "2 ^ 1023 < overflow_bound"
proof -
  have "(2::real) ^ 970 < 2 ^ 1023" by (rule power_strict_increasing) simp_all
  moreover have "(2::real) ^ 1024 = 2 * 2 ^ 1023" by simp
  ultimately show ?thesis by (simp add: overflow_bound_def)
qed

lemma overflow_bound_small: "overflow_bound < 2 ^ 1024"
  by (simp add: overflow_bound_def)

lemma velocity_overflows: "js_mul svgVelocityBase (Fin (2 ^ 1020)) = PInf"
proof -
  have "(2::real) ^ 1024 = 16 * 2 ^ 1020" by simp
  then have "overflow_bound \<le> 100 * 2 ^ 1020"
    using overflow_bound_small by simp
  then show ?thesis by (simp add: svgVelocityBase_def fl_def)
qed

subsection \<open>Scheduling\<close>

lemma svgAnimate_stopped:
  "\<not> svgPlaying s \<Longrightarrow>
   pending (svgAnimate ts speedFactor s) = pending s \<and>
   svgAnimReq (svgAnimate ts speedFactor s) = svgAnimReq s \<and>
   lastHandle (svgAnimate ts speedFactor s) = lastHandle s \<and>
   \<not> svgPlaying (svgAnimate ts speedFactor s)"
  by (simp add: svgAnimate_def Let_def)

lemma svgAnimate_playing:
  "svgPlaying s \<Longrightarrow>
   pending (svgAnimate ts speedFactor s) = pending s @ [Suc (lastHandle s)] \<and>
   svgAnimReq (svgAnimate ts speedFactor s) = Some (Suc (lastHandle s)) \<and>
   lastHandle (svgAnimate ts speedFactor s) = Suc (lastHandle s) \<and>
   svgPlaying (svgAnimate ts speedFactor s)"
  by (simp add: svgAnimate_def Let_def requestAnimationFrame_def)

lemma startSvg_running: "svgPlaying s \<Longrightarrow> startSvg s = s"
  by (simp add: startSvg_def)

lemma startSvg_stopped:
  "\<not> svgPlaying s \<Longrightarrow>
   startSvg s = s\<lparr>svgAnimReq := Some (Suc (lastHandle s)), svgPlaying := True,
                  lastTimestamp := None, pending := pending s @ [Suc (lastHandle s)],
                  lastHandle := Suc (lastHandle s)\<rparr>"
  by (simp add: startSvg_def requestAnimationFrame_def Let_def)

lemma startSvg_idem: "startSvg (startSvg s) = startSvg s"
  by (cases "svgPlaying s") (simp_all add: startSvg_running startSvg_stopped)

lemma pauseSvgAnim_idem: "pauseSvgAnim (pauseSvgAnim s) = pauseSvgAnim s"
  by (cases "svgAnimReq s")
     (simp_all add: pauseSvgAnim_def Let_def truthy_handle_def cancelAnimationFrame_def)

lemma pauseSvgAnim_ok:
  assumes "scheduled_ok s"
  shows "\<not> svgPlaying (pauseSvgAnim s) \<and> pending (pauseSvgAnim s) = [] \<and>
         svgAnimReq (pauseSvgAnim s) = None \<and> (\<not> svgPlaying s \<longrightarrow> pauseSvgAnim s = s)"
  using assms
  by (auto simp: scheduled_ok_def pauseSvgAnim_def Let_def truthy_handle_def
        cancelAnimationFrame_def split: if_splits option.splits)

lemma runFrame_ok:
  assumes "scheduled_ok s"
  shows "svgPlaying (runFrame ts sp s) = svgPlaying s \<and>
         (svgPlaying s \<longrightarrow> pending (runFrame ts sp s) = [Suc (lastHandle s)] \<and>
                            svgAnimReq (runFrame ts sp s) = Some (Suc (lastHandle s))) \<and>
         (\<not> svgPlaying s \<longrightarrow> runFrame ts sp s = s)"
proof (cases "svgPlaying s")
  case True
  with assms obtain h where h: "svgAnimReq s = Some h" "pending s = [h]"
    by (auto simp: scheduled_ok_def split: option.splits)
  have r: "runFrame ts sp s = svgAnimate ts sp (s\<lparr>pending := []\<rparr>)"
    using h by (simp add: runFrame_def)
  from True have "svgPlaying (s\<lparr>pending := []\<rparr>)" by simp
  from svgAnimate_playing[OF this, of ts sp] r True show ?thesis by simp
next
  case False
  with assms have "pending s = []" by (simp add: scheduled_ok_def)
  with False show ?thesis by (simp add: runFrame_def)
qed

lemma scheduled_ok_step: "scheduled_ok s \<Longrightarrow> scheduled_ok (anim_step e s)"
proof (cases e)
  case Play
  assume ok: "scheduled_ok s"
  show ?thesis
  proof (cases "svgPlaying s")
    case True
    with ok Play show ?thesis by (simp add: startSvg_running)
  next
    case False
    with ok Play show ?thesis by (simp add: startSvg_stopped scheduled_ok_def)
  qed
next
  case Pause
  assume ok: "scheduled_ok s"
  from pauseSvgAnim_ok[OF ok] Pause show ?thesis by (simp add: scheduled_ok_def)
next
  case (Frame ts sp)
  assume ok: "scheduled_ok s"
  from runFrame_ok[OF ok, of ts sp] ok Frame show ?thesis
    by (cases "svgPlaying s") (simp_all add: scheduled_ok_def)
qed

lemma anim_reachable_ok: "anim_reachable s \<Longrightarrow> scheduled_ok s"
proof (induction rule: anim_reachable.induct)
  case anim_reachable_init
  show ?case
    by (simp add: anim_init_def anim_declared_def requestAnimationFrame_def scheduled_ok_def Let_def)
next
  case (anim_reachable_step s e)
  then show ?case by (simp add: scheduled_ok_step)
qed

lemma pauseSvgAnim_reachable: "anim_reachable s \<Longrightarrow> anim_reachable (pauseSvgAnim s)"
  using anim_reachable_step[of s Pause] by simp

section \<open>The claims about the animation\<close>

subsection \<open>C8: the loop is a two-state machine\<close>

text \<open>
  Claim C8: in every state the loop can reach, with the mode read off \<open>svgPlaying\<close>,
  \<^item> pause leaves the mode stopped, with no frame callback queued and \<open>svgAnimReq\<close>
    \<open>null\<close>; in the stopped mode it changes nothing;
  \<^item> play in the running mode changes nothing; in the stopped mode it leaves the mode
    running with exactly one, new, frame callback queued;
  \<^item> pausing twice is pausing once, and playing twice is playing once;
  \<^item> a frame keeps the mode; running, it leaves exactly one, new, callback queued;
    stopped, nothing is queued and nothing changes;
  \<^item> in any state at all, \<open>svgAnimate\<close> queues a next frame when \<open>svgPlaying\<close> is set,
    and otherwise leaves the queue and \<open>svgAnimReq\<close> as they were.
\<close>

theorem animation_two_state_machine:
  "anim_reachable s \<Longrightarrow>
   mode_of (pauseSvgAnim s) = Stopped \<and> pending (pauseSvgAnim s) = [] \<and>
   svgAnimReq (pauseSvgAnim s) = None \<and>
   (mode_of s = Stopped \<longrightarrow> pauseSvgAnim s = s) \<and>
   (mode_of s = Running \<longrightarrow> startSvg s = s) \<and>
   (mode_of s = Stopped \<longrightarrow>
      mode_of (startSvg s) = Running \<and> pending (startSvg s) = [Suc (lastHandle s)] \<and>
      svgAnimReq (startSvg s) = Some (Suc (lastHandle s))) \<and>
   pauseSvgAnim (pauseSvgAnim s) = pauseSvgAnim s \<and>
   startSvg (startSvg s) = startSvg s \<and>
   mode_of (runFrame ts sp s) = mode_of s \<and>
   (mode_of s = Running \<longrightarrow>
      pending (runFrame ts sp s) = [Suc (lastHandle s)] \<and>
      svgAnimReq (runFrame ts sp s) = Some (Suc (lastHandle s))) \<and>
   (mode_of s = Stopped \<longrightarrow> runFrame ts sp s = s) \<and>
   (svgPlaying s' \<longrightarrow> pending (svgAnimate ts sp s') = pending s' @ [Suc (lastHandle s')]) \<and>
   (\<not> svgPlaying s' \<longrightarrow>
      pending (svgAnimate ts sp s') = pending s' \<and>
      svgAnimReq (svgAnimate ts sp s') = svgAnimReq s')"
proof -
  assume "anim_reachable s"
  then have ok: "scheduled_ok s" by (rule anim_reachable_ok)
  have stopped: "\<not> svgPlaying s \<Longrightarrow> pending s = []"
    using ok by (simp add: scheduled_ok_def)
  have p: "mode_of (pauseSvgAnim s) = Stopped \<and> pending (pauseSvgAnim s) = [] \<and>
       svgAnimReq (pauseSvgAnim s) = None \<and> (mode_of s = Stopped \<longrightarrow> pauseSvgAnim s = s)"
    using pauseSvgAnim_ok[OF ok] by (simp add: mode_of_def)
  have q: "(mode_of s = Running \<longrightarrow> startSvg s = s) \<and>
     (mode_of s = Stopped \<longrightarrow>
        mode_of (startSvg s) = Running \<and> pending (startSvg s) = [Suc (lastHandle s)] \<and>
        svgAnimReq (startSvg s) = Some (Suc (lastHandle s)))"
    using stopped by (auto simp: mode_of_def startSvg_running startSvg_stopped split: if_splits)
  have f: "mode_of (runFrame ts sp s) = mode_of s \<and>
     (mode_of s = Running \<longrightarrow>
        pending (runFrame ts sp s) = [Suc (lastHandle s)] \<and>
        svgAnimReq (runFrame ts sp s) = Some (Suc (lastHandle s))) \<and>
     (mode_of s = Stopped \<longrightarrow> runFrame ts sp s = s)"
    using runFrame_ok[OF ok, of ts sp] by (auto simp: mode_of_def split: if_splits)
  have a: "(svgPlaying s' \<longrightarrow> pending (svgAnimate ts sp s') = pending s' @ [Suc (lastHandle s')]) \<and>
     (\<not> svgPlaying s' \<longrightarrow>
        pending (svgAnimate ts sp s') = pending s' \<and>
        svgAnimReq (svgAnimate ts sp s') = svgAnimReq s')"
    using svgAnimate_playing[of s' ts sp] svgAnimate_stopped[of s' ts sp] by blast
  from p q f a pauseSvgAnim_idem[of s] startSvg_idem[of s] show ?thesis by blast
qed

text \<open>
  C8, instances: the state when the script has loaded (running, frame 1 queued), and the
  state after a pause.
\<close>

theorem animation_two_state_machine_witness:
  "anim_reachable anim_init \<and> mode_of anim_init = Running \<and>
   pending anim_init = [1] \<and>
   mode_of (pauseSvgAnim anim_init) = Stopped \<and> pending (pauseSvgAnim anim_init) = [] \<and>
   startSvg anim_init = anim_init \<and>
   pending (runFrame (Fin 16) (Fin 1) anim_init) = [2] \<and>
   anim_reachable (pauseSvgAnim anim_init) \<and>
   pauseSvgAnim (pauseSvgAnim anim_init) = pauseSvgAnim anim_init \<and>
   pending (startSvg (pauseSvgAnim anim_init)) = [2] \<and>
   runFrame (Fin 16) (Fin 1) (pauseSvgAnim anim_init) = pauseSvgAnim anim_init"
proof -
  have r: "anim_reachable anim_init" by (rule anim_reachable_init)
  have r2: "anim_reachable (pauseSvgAnim anim_init)" by (rule pauseSvgAnim_reachable[OF r])
  have m: "mode_of anim_init = Running" "pending anim_init = [1]" "lastHandle anim_init = 1"
    by (simp_all add: anim_init_def anim_declared_def requestAnimationFrame_def mode_of_def Let_def)
  have m2: "mode_of (pauseSvgAnim anim_init) = Stopped" "lastHandle (pauseSvgAnim anim_init) = 1"
    by (simp_all add: anim_init_def anim_declared_def requestAnimationFrame_def mode_of_def Let_def
          pauseSvgAnim_def truthy_handle_def cancelAnimationFrame_def)
  from animation_two_state_machine[OF r, of "Fin 16" "Fin 1" anim_init]
       animation_two_state_machine[OF r2, of "Fin 16" "Fin 1" anim_init] r r2 m m2
  show ?thesis by simp
qed

subsection \<open>C9: the position stays within the bounds\<close>

text \<open>
  Claim C9 says that after every call of \<open>svgAnimate\<close> the position \<open>svgX\<close> lies in
  \<open>[svgMin, svgMax] = [30, 770]\<close>, whatever the non-negative elapsed time and speed
  factor and whatever the position before. In doubles this fails when the velocity
  \<open>100 * speedFactor\<close> overflows. Amended, C9 reads: after every call, the position is at
  the upper bound with the direction reversed to \<open>-1\<close>, or at the lower bound with the
  direction \<open>1\<close>, or strictly inside with the direction as it was, or it is \<open>NaN\<close>; and
  it lies in \<open>[30, 770]\<close> whenever the inputs are finite: the position before (also one
  outside the interval), a direction of \<open>1\<close> or \<open>-1\<close>, the timestamp with a finite
  difference to the previous one (whatever its sign, so also for a non-negative elapsed
  time), and the speed factor with a velocity \<open>100 * speedFactor\<close> that does not
  overflow. The displacement itself may overflow: an infinite overshoot is clamped to
  the bound like a finite one.
\<close>

theorem svgAnimate_within_bounds:
  "(svgX (svgAnimate ts speedFactor s) = svgMax \<and> svgDir (svgAnimate ts speedFactor s) = Fin (- 1) \<or>
    svgX (svgAnimate ts speedFactor s) = svgMin \<and> svgDir (svgAnimate ts speedFactor s) = Fin 1 \<or>
    (\<exists>r. svgX (svgAnimate ts speedFactor s) = Fin r \<and> 30 < r \<and> r < 770 \<and>
         svgDir (svgAnimate ts speedFactor s) = svgDir s) \<or>
    svgX (svgAnimate ts speedFactor s) = NaN \<and> svgDir (svgAnimate ts speedFactor s) = svgDir s) \<and>
   (svgX s = Fin x \<and> (svgDir s = Fin 1 \<or> svgDir s = Fin (- 1)) \<and>
    speedFactor = Fin sp \<and> \<bar>100 * sp\<bar> < overflow_bound \<and> ts = Fin t \<and>
    (lastTimestamp s = None \<or> (\<exists>l. lastTimestamp s = Some (Fin l) \<and> \<bar>t - l\<bar> < overflow_bound))
    \<longrightarrow>
    within_bounds (svgX (svgAnimate ts speedFactor s)) \<and>
    (\<exists>r. svgX (svgAnimate ts speedFactor s) = Fin r \<and> 30 \<le> r \<and> r \<le> 770)) \<and>
   svgMin = Fin 30 \<and> svgMax = Fin 770"
proof -
  note four = svgAnimate_four_cases[of ts speedFactor s]
  have cond: "within_bounds (svgX (svgAnimate ts speedFactor s)) \<and>
      (\<exists>r. svgX (svgAnimate ts speedFactor s) = Fin r \<and> 30 \<le> r \<and> r \<le> 770)"
    if h: "svgX s = Fin x" "svgDir s = Fin 1 \<or> svgDir s = Fin (- 1)"
      "speedFactor = Fin sp" "\<bar>100 * sp\<bar> < overflow_bound" "ts = Fin t"
      "lastTimestamp s = None \<or> (\<exists>l. lastTimestamp s = Some (Fin l) \<and> \<bar>t - l\<bar> < overflow_bound)"
  proof -
    from moved_not_NaN[OF h] have "svgX (svgAnimate ts speedFactor s) \<noteq> NaN" .
    with four show ?thesis
      by (auto simp: within_bounds_def svgMin_def svgMax_def)
  qed
  from four cond show ?thesis
    by (simp add: svgMin_def svgMax_def)
qed


text \<open>
  C9, instances: an overshoot from 760 by 200 ends at 770 going left, the position 1000
  is brought within the bounds, and a half second at speed 1 from 50 ends at 100.
\<close>

theorem svgAnimate_within_bounds_witness:
  "within_bounds (svgX (svgAnimate (Fin 2000) (Fin 2)
      (anim_init\<lparr>svgX := Fin 760, lastTimestamp := Some (Fin 1000)\<rparr>))) \<and>
   svgX (svgAnimate (Fin 2000) (Fin 2)
      (anim_init\<lparr>svgX := Fin 760, lastTimestamp := Some (Fin 1000)\<rparr>)) = Fin 770 \<and>
   svgDir (svgAnimate (Fin 2000) (Fin 2)
      (anim_init\<lparr>svgX := Fin 760, lastTimestamp := Some (Fin 1000)\<rparr>)) = Fin (- 1) \<and>
   within_bounds (svgX (svgAnimate (Fin 16) (Fin 1) (anim_init\<lparr>svgX := Fin 1000\<rparr>))) \<and>
   within_bounds (svgX (svgAnimate (Fin 1500) (Fin 1)
      (anim_init\<lparr>lastTimestamp := Some (Fin 1000)\<rparr>))) \<and>
   svgX (svgAnimate (Fin 1500) (Fin 1)
      (anim_init\<lparr>lastTimestamp := Some (Fin 1000)\<rparr>)) = Fin 100"
proof -
  have big: "(2000::real) < overflow_bound"
  proof -
    have "(2::real) ^ 11 \<le> 2 ^ 1023" by (rule power_increasing) simp_all
    with overflow_bound_large show ?thesis by simp
  qed
  have fin: "fl r = Fin r" if "\<bar>r\<bar> \<le> 2000" for r
    using that big by (intro fl_Fin) simp
  have i: "svgDir anim_init = Fin 1" "svgX anim_init = Fin 50" "lastTimestamp anim_init = None"
    by (simp_all add: anim_init_def anim_declared_def requestAnimationFrame_def Let_def)
  let ?a = "anim_init\<lparr>svgX := Fin 760, lastTimestamp := Some (Fin 1000)\<rparr>"
  let ?b = "anim_init\<lparr>svgX := Fin 1000\<rparr>"
  let ?c = "anim_init\<lparr>lastTimestamp := Some (Fin 1000)\<rparr>"
  have a: "within_bounds (svgX (svgAnimate (Fin 2000) (Fin 2) ?a))"
    using svgAnimate_within_bounds[of "Fin 2000" "Fin 2" ?a 760 2 2000] big
    by (simp add: i)
  have b: "within_bounds (svgX (svgAnimate (Fin 16) (Fin 1) ?b))"
    using svgAnimate_within_bounds[of "Fin 16" "Fin 1" ?b 1000 1 16] big
    by (simp add: i)
  have c: "within_bounds (svgX (svgAnimate (Fin 1500) (Fin 1) ?c))"
    using svgAnimate_within_bounds[of "Fin 1500" "Fin 1" ?c 50 1 1500] big
    by (simp add: i)
  have a1: "svgX (svgAnimate (Fin 2000) (Fin 2) ?a) = Fin 770"
    by (simp add: svgAnimate_svgX Let_def i truthy_number_def svgVelocityBase_def js_sub_def fin
          svgMax_def svgMin_def js_ge_def)
  have a2: "svgDir (svgAnimate (Fin 2000) (Fin 2) ?a) = Fin (- 1)"
    by (simp add: svgAnimate_svgDir Let_def i truthy_number_def svgVelocityBase_def js_sub_def fin
          svgMax_def svgMin_def js_ge_def)
  have c1: "svgX (svgAnimate (Fin 1500) (Fin 1) ?c) = Fin 100"
    by (simp add: svgAnimate_svgX Let_def i truthy_number_def svgVelocityBase_def js_sub_def fin
          svgMax_def svgMin_def js_ge_def)
  from a b c a1 a2 c1 show ?thesis by simp
qed

text \<open>
  C9 as stated fails on the first frame after loading (elapsed time \<open>0\<close>) with the
  finite, non-negative speed factor \<open>2^1020\<close>: the velocity \<open>100 * 2^1020\<close> overflows to
  \<open>Infinity\<close>, \<open>Infinity * 0\<close> is \<open>NaN\<close>, so the position becomes \<open>NaN\<close>, both bounce
  tests fail, and the reachable state after the frame has a position outside the bounds.
\<close>

theorem svgAnimate_overflow_counterexample:
  "(0::real) \<le> 2 ^ 1020 \<and> (2::real) ^ 1020 < overflow_bound \<and>
   svgX anim_init = Fin 50 \<and> svgDir anim_init = Fin 1 \<and> lastTimestamp anim_init = None \<and>
   anim_reachable (runFrame (Fin 16) (Fin (2 ^ 1020)) anim_init) \<and>
   svgX (svgAnimate (Fin 16) (Fin (2 ^ 1020)) anim_init) = NaN \<and>
   svgX (runFrame (Fin 16) (Fin (2 ^ 1020)) anim_init) = NaN \<and>
   \<not> within_bounds (svgX (svgAnimate (Fin 16) (Fin (2 ^ 1020)) anim_init))"
proof -
  define big :: real where "big = 2 ^ 1020"
  have b0: "0 \<le> big" by (simp add: big_def)
  have b: "big < overflow_bound"
  proof -
    have "(2::real) ^ 1020 < 2 ^ 1023" by (rule power_strict_increasing) simp_all
    with overflow_bound_large show ?thesis by (simp add: big_def)
  qed
  have v: "js_mul svgVelocityBase (Fin big) = PInf"
    unfolding big_def by (rule velocity_overflows)
  have i: "svgX anim_init = Fin 50" "svgDir anim_init = Fin 1" "lastTimestamp anim_init = None"
          "pending anim_init = [1]"
    by (simp_all add: anim_init_def anim_declared_def requestAnimationFrame_def Let_def)
  have r: "anim_reachable (runFrame (Fin 16) (Fin big) anim_init)"
    using anim_reachable_step[OF anim_reachable_init, of "Frame (Fin 16) (Fin big)"] by simp
  have z: "js_div_pos (js_sub (Fin 16) (Fin 16)) 1000 = Fin 0"
    using overflow_bound_pos by (simp add: js_sub_def fl_def)
  have n: "svgX (svgAnimate (Fin 16) (Fin big) s) = NaN"
    if "svgX s = Fin 50" "svgDir s = Fin 1" "lastTimestamp s = None" for s
    using that
    by (simp add: svgAnimate_svgX Let_def v z svgMax_def svgMin_def js_ge_def)
  have f: "runFrame (Fin 16) (Fin big) anim_init =
           svgAnimate (Fin 16) (Fin big) (anim_init\<lparr>pending := []\<rparr>)"
    by (simp add: runFrame_def i)
  have n1: "svgX (svgAnimate (Fin 16) (Fin big) anim_init) = NaN"
    by (rule n) (simp_all add: i)
  have n2: "svgX (runFrame (Fin 16) (Fin big) anim_init) = NaN"
    unfolding f by (rule n) (simp_all add: i)
  have w: "\<not> within_bounds (svgX (svgAnimate (Fin 16) (Fin big) anim_init))"
    by (simp add: n1 within_bounds_def svgMin_def)
  from b0 b i(1,2,3) r n1 n2 w show ?thesis
    unfolding big_def by (intro conjI)
qed

section \<open>Facts about the product listing\<close>

lemma fold_cards:
  "fold (\<lambda>p s'. s'\<lparr>container := container s' @ [product_card p]\<rparr>) xs s =
     s\<lparr>container := container s @ map product_card xs\<rparr>"
  by (induction xs arbitrary: s) simp_all

lemma renderProducts_Inr:
  "a < length (store s) \<Longrightarrow>
   renderProducts a s = Inr (s\<lparr>container := map product_card (store s ! a)\<rparr>)"
  by (simp add: renderProducts_def read_array_def fold_cards)

lemma spread_Inr:
  "a < length (store s) \<Longrightarrow>
   spread (Some a) s = Inr (length (store s), s\<lparr>store := store s @ [store s ! a]\<rparr>)"
  by (simp add: spread_def read_array_def new_array_def)

lemma sort_copy_Inr:
  assumes "allProducts s = Some a" "a < length (store s)"
  shows "(case spread (allProducts s) s of
            Inl e \<Rightarrow> Inl e
          | Inr (sorted', s1) \<Rightarrow> renderProducts sorted' (sort_in_place key sorted' s1)) =
         Inr (s\<lparr>store := store s @ [sort_key key (store s ! a)],
                container := map product_card (sort_key key (store s ! a))\<rparr>)"
proof -
  let ?s1 = "s\<lparr>store := store s @ [store s ! a]\<rparr>"
  let ?n = "length (store s)"
  have sp: "spread (allProducts s) s = Inr (?n, ?s1)"
    using assms by (simp add: spread_Inr)
  have st: "store (sort_in_place key ?n ?s1) = store s @ [sort_key key (store s ! a)]"
    using assms by (simp add: sort_in_place_def nth_append)
  have lt: "?n < length (store (sort_in_place key ?n ?s1))"
    by (simp add: st)
  have "renderProducts ?n (sort_in_place key ?n ?s1) =
          Inr ((sort_in_place key ?n ?s1)\<lparr>container := map product_card (store (sort_in_place key ?n ?s1) ! ?n)\<rparr>)"
    by (rule renderProducts_Inr[OF lt])
  also have "\<dots> = Inr (s\<lparr>store := store s @ [sort_key key (store s ! a)],
                container := map product_card (sort_key key (store s ! a))\<rparr>)"
    using assms by (simp add: sort_in_place_def nth_append)
  finally show ?thesis by (simp add: sp)
qed

lemma filterCategory_Inr:
  assumes "allProducts s = Some a" "a < length (store s)"
  shows "filterCategory cat s =
         Inr (s\<lparr>store := store s @ [filter (\<lambda>product. category product = cat) (store s ! a)],
                container := map product_card (filter (\<lambda>product. category product = cat) (store s ! a))\<rparr>)"
  using assms
  by (simp add: filterCategory_def read_array_def new_array_def renderProducts_Inr)

section \<open>The claim about the product listing\<close>

subsection \<open>C10: sorting and filtering leave the fetched list alone\<close>

text \<open>
  Claim C10: when \<open>allProducts\<close> is an array of the store, \<open>sortPriceLow\<close>,
  \<open>sortPriceHigh\<close> and \<open>filterCategory(category)\<close> return, \<open>allProducts\<close> still refers
  to the same array, that array and every other array of the store is element for element
  as before, and the store has exactly one new array: the copy sorted by ascending
  (descending) price, or the products whose \<open>category\<close> equals the given one, in their
  order, which are the cards then shown.
\<close>

theorem listing_does_not_mutate:
  assumes "allProducts s = Some a" and "a < length (store s)"
  shows "(\<exists>s'. sortPriceLow s = Inr s' \<and> allProducts s' = Some a \<and>
               store s' ! a = store s ! a \<and>
               store s' = store s @ [sort_key price (store s ! a)]) \<and>
         (\<exists>s'. sortPriceHigh s = Inr s' \<and> allProducts s' = Some a \<and>
               store s' ! a = store s ! a \<and>
               store s' = store s @ [sort_key (\<lambda>p. - price p) (store s ! a)]) \<and>
         (\<exists>s'. filterCategory cat s = Inr s' \<and> allProducts s' = Some a \<and>
               store s' ! a = store s ! a \<and>
               store s' = store s @ [filter (\<lambda>product. category product = cat) (store s ! a)] \<and>
               container s' =
                 map product_card (filter (\<lambda>product. category product = cat) (store s ! a)))"
proof -
  have lo: "sortPriceLow s = Inr (s\<lparr>store := store s @ [sort_key price (store s ! a)],
                container := map product_card (sort_key price (store s ! a))\<rparr>)"
    unfolding sortPriceLow_def by (rule sort_copy_Inr[OF assms])
  have hi: "sortPriceHigh s = Inr (s\<lparr>store := store s @ [sort_key (\<lambda>p. - price p) (store s ! a)],
                container := map product_card (sort_key (\<lambda>p. - price p) (store s ! a))\<rparr>)"
    unfolding sortPriceHigh_def by (rule sort_copy_Inr[OF assms])
  note fi = filterCategory_Inr[OF assms, of cat]
  show ?thesis
    using assms by (simp add: lo hi fi nth_append)
qed

text \<open>C10, an instance: three fetched products, sorted both ways and filtered.\<close>

theorem listing_does_not_mutate_witness:
  "fetchProducts [shirt, ring, socks] \<lparr>store = [], allProducts = None, container = []\<rparr> =
     Inr \<lparr>store = [[shirt, ring, socks]], allProducts = Some 0,
          container = [product_card shirt, product_card ring, product_card socks]\<rparr> \<and>
   (\<exists>s'. sortPriceLow \<lparr>store = [[shirt, ring, socks]], allProducts = Some 0,
                        container = [product_card shirt, product_card ring, product_card socks]\<rparr> = Inr s' \<and>
         store s' = [[shirt, ring, socks], [socks, shirt, ring]]) \<and>
   (\<exists>s'. sortPriceHigh \<lparr>store = [[shirt, ring, socks]], allProducts = Some 0,
                        container = [product_card shirt, product_card ring, product_card socks]\<rparr> = Inr s' \<and>
         store s' = [[shirt, ring, socks], [ring, shirt, socks]]) \<and>
   (\<exists>s'. filterCategory ''clothing'' \<lparr>store = [[shirt, ring, socks]], allProducts = Some 0,
                        container = [product_card shirt, product_card ring, product_card socks]\<rparr> = Inr s' \<and>
         store s' = [[shirt, ring, socks], [shirt, socks]] \<and>
         container s' = [product_card shirt, product_card socks])"
proof -
  let ?s = "\<lparr>store = [[shirt, ring, socks]], allProducts = Some 0,
             container = [product_card shirt, product_card ring, product_card socks]\<rparr>"
  have f: "fetchProducts [shirt, ring, socks] \<lparr>store = [], allProducts = None, container = []\<rparr> = Inr ?s"
    by (simp add: fetchProducts_def new_array_def renderProducts_def read_array_def)
  have a: "allProducts ?s = Some 0" "0 < length (store ?s)" by simp_all
  from listing_does_not_mutate[OF a, of "''clothing''"]
  obtain s1 s2 s3 where
    lo: "sortPriceLow ?s = Inr s1" "store s1 = store ?s @ [sort_key price (store ?s ! 0)]" and
    hi: "sortPriceHigh ?s = Inr s2"
        "store s2 = store ?s @ [sort_key (\<lambda>p. - price p) (store ?s ! 0)]" and
    fi: "filterCategory ''clothing'' ?s = Inr s3"
        "store s3 = store ?s @ [filter (\<lambda>product. category product = ''clothing'') (store ?s ! 0)]"
        "container s3 =
           map product_card (filter (\<lambda>product. category product = ''clothing'') (store ?s ! 0))"
    by blast
  have lo': "store s1 = [[shirt, ring, socks], [socks, shirt, ring]]"
    unfolding lo(2) by (simp add: shirt_def ring_def socks_def)
  have hi': "store s2 = [[shirt, ring, socks], [ring, shirt, socks]]"
    unfolding hi(2) by (simp add: shirt_def ring_def socks_def)
  have fi': "store s3 = [[shirt, ring, socks], [shirt, socks]]"
            "container s3 = [product_card shirt, product_card socks]"
    unfolding fi(2) fi(3) by (simp_all add: shirt_def ring_def socks_def)
  from f lo(1) lo' hi(1) hi' fi(1) fi' show ?thesis by blast
qed

end
